theory Spec2Isabelle
  imports Main "HOL-Library.Signed_Division"
begin

section \<open>A shallow embedding of baby-gol (src/main.cpp)\<close>

text \<open>
  The C++ \<open>int\<close> is modelled as \<open>int\<close>, with the signed overflow written out where
  values of a caller enter the arithmetic: the product \<open>width * height\<close> of the
  constructor and the index that \<open>to_1d\<close> computes from a coordinate. An overflow is
  undefined in the source and an error value here. The private functions \<open>to_2d\<close> and
  \<open>neighbors\<close> are called on the indices below \<open>m_max\<close> only, where their quotients,
  remainders and shifted coordinates stay inside the range of \<open>int\<close>. C++ \<open>/\<close> and \<open>%\<close>
  truncate towards zero: they are \<open>sdiv\<close> and \<open>smod\<close>.
\<close>

subsection \<open>Errors\<close>

text \<open>
  The source has no error handling. What is undefined behaviour or a thrown exception
  there is an error value here: an array access outside the allocated cells, a division
  by zero, a signed overflow, and an array allocated with a negative length.
\<close>

datatype error = OutOfRange | DivideByZero | Overflow | InvalidDimension

definition INT_MAX :: int where
  "INT_MAX = 2147483647"

definition INT_MIN :: int where
  "INT_MIN = - 2147483648"

definition in_int_range :: "int \<Rightarrow> bool" where
  "in_int_range x = (INT_MIN \<le> x \<and> x \<le> INT_MAX)"

subsection \<open>Cell\<close>

record Cell =
  m_status :: int
  m_location :: "int \<times> int"

definition is_alive :: "Cell \<Rightarrow> bool" where
  "is_alive c = (m_status c \<noteq> 0)"

definition coord :: "Cell \<Rightarrow> int \<times> int" where
  "coord c = m_location c"

subsection \<open>Neighborhood\<close>

record Neighborhood =
  m_cell :: Cell
  m_neighbors :: "Cell list"

definition cell_status :: "Neighborhood \<Rightarrow> bool" where
  "cell_status hood = is_alive (m_cell hood)"

definition cell_location :: "Neighborhood \<Rightarrow> int \<times> int" where
  "cell_location hood = coord (m_cell hood)"

text \<open>The counting loop of \<open>count_alive_neighbors\<close>, with \<open>count\<close> as the accumulator.\<close>

fun count_alive_loop :: "Cell list \<Rightarrow> int \<Rightarrow> int" where
  "count_alive_loop [] count = count"
| "count_alive_loop (c # cs) count =
     count_alive_loop cs (if is_alive c then count + 1 else count)"

definition count_alive_neighbors :: "Neighborhood \<Rightarrow> int" where
  "count_alive_neighbors hood = count_alive_loop (m_neighbors hood) 0"

subsection \<open>Grid\<close>

text \<open>
  \<open>m_contents\<close> is the heap array, \<open>m_engine\<close> the state of the grid's own random engine
  (of a type \<open>'e\<close> that the standard library fixes). The distribution \<open>m_distribution\<close> is
  constructed as \<open>(0, 1)\<close> and has no state; the offsets table is the constant
  \<open>m_neighbor_offsets\<close> below.
\<close>

record 'e Grid =
  m_contents :: "int list"
  m_width :: int
  m_height :: int
  m_max :: int
  m_engine :: 'e

definition m_neighbor_offsets :: "(int \<times> int) list" where
  "m_neighbor_offsets =
     [(-1, -1), (0, -1), (1, -1),
      (-1, 0), (1, 0),
      (-1, 1), (0, 1), (1, 1)]"

text \<open>
  The constructor's loop \<open>for (i = 0; i < m_max; i++) m_contents[i] = m_distribution(m_engine)\<close>:
  \<open>draw\<close> is one call \<open>m_distribution(m_engine)\<close>, which returns a value and advances the
  engine; \<open>n\<close> counts the iterations left.
\<close>

fun fill_loop :: "('e \<Rightarrow> int \<times> 'e) \<Rightarrow> nat \<Rightarrow> 'e \<Rightarrow> int list \<Rightarrow> int list \<times> 'e" where
  "fill_loop draw 0 e contents = (contents, e)"
| "fill_loop draw (Suc n) e contents =
     (case draw e of (v, e') \<Rightarrow> fill_loop draw n e' (contents @ [v]))"

text \<open>
  \<open>Grid(width, height)\<close>. The member \<open>m_engine\<close> has no initialiser, so it is
  default-constructed: \<open>default_engine\<close> is that state. A product \<open>width * height\<close> that
  is not an \<open>int\<close> is undefined, and \<open>new int[m_max]\<close> throws for a negative \<open>m_max\<close>.
\<close>

definition Grid_ctor ::
  "('e \<Rightarrow> int \<times> 'e) \<Rightarrow> 'e \<Rightarrow> int \<Rightarrow> int \<Rightarrow> error + 'e Grid" where
  "Grid_ctor draw default_engine width height =
     (if \<not> in_int_range (width * height) then Inl Overflow
      else if width * height < 0 then Inl InvalidDimension
      else case fill_loop draw (nat (width * height)) default_engine [] of
        (contents, e) \<Rightarrow>
          Inr \<lparr>m_contents = contents, m_width = width, m_height = height,
               m_max = width * height, m_engine = e\<rparr>)"

text \<open>Reading and writing \<open>m_contents[idx]\<close>; outside the array the source is undefined.\<close>

definition read_contents :: "'e Grid \<Rightarrow> int \<Rightarrow> error + int" where
  "read_contents g idx =
     (if 0 \<le> idx \<and> idx < int (length (m_contents g))
      then Inr (m_contents g ! nat idx) else Inl OutOfRange)"

definition write_contents :: "'e Grid \<Rightarrow> int \<Rightarrow> int \<Rightarrow> error + 'e Grid" where
  "write_contents g idx v =
     (if 0 \<le> idx \<and> idx < int (length (m_contents g))
      then Inr (g\<lparr>m_contents := (m_contents g)[nat idx := v]\<rparr>) else Inl OutOfRange)"

text \<open>\<open>x = floor(idx / m_height)\<close> is the integer quotient: \<open>floor\<close> of an integer is itself.\<close>

definition to_2d :: "'e Grid \<Rightarrow> int \<Rightarrow> error + (int \<times> int)" where
  "to_2d g idx =
     (if m_height g = 0 then Inl DivideByZero
      else Inr (idx sdiv m_height g, idx smod m_height g))"

text \<open>\<open>result = coord[1] + (coord[0] * m_height)\<close>: a product, then a sum.\<close>

definition to_1d :: "'e Grid \<Rightarrow> int \<times> int \<Rightarrow> error + int" where
  "to_1d g c =
     (if in_int_range (fst c * m_height g) \<and> in_int_range (snd c + (fst c * m_height g))
      then Inr (snd c + (fst c * m_height g)) else Inl Overflow)"

definition value_at :: "'e Grid \<Rightarrow> int \<times> int \<Rightarrow> error + int" where
  "value_at g c =
     (case to_1d g c of Inl e \<Rightarrow> Inl e | Inr idx \<Rightarrow> read_contents g idx)"

definition activate :: "'e Grid \<Rightarrow> int \<times> int \<Rightarrow> error + 'e Grid" where
  "activate g c =
     (case to_1d g c of Inl e \<Rightarrow> Inl e | Inr idx \<Rightarrow> write_contents g idx 1)"

definition deactivate :: "'e Grid \<Rightarrow> int \<times> int \<Rightarrow> error + 'e Grid" where
  "deactivate g c =
     (case to_1d g c of Inl e \<Rightarrow> Inl e | Inr idx \<Rightarrow> write_contents g idx 0)"

text \<open>The loop of \<open>neighbors\<close> over the eight offsets, \<open>acc\<close> being the vector built so far.\<close>

fun neighbors_loop ::
  "'e Grid \<Rightarrow> int \<times> int \<Rightarrow> (int \<times> int) list \<Rightarrow> Cell list \<Rightarrow> error + Cell list" where
  "neighbors_loop g this_coord [] acc = Inr acc"
| "neighbors_loop g this_coord (off # offs) acc =
     (let neighbor_coord = (fst this_coord + fst off, snd this_coord + snd off) in
      if -1 < fst neighbor_coord \<and> fst neighbor_coord < m_width g
         \<and> -1 < snd neighbor_coord \<and> snd neighbor_coord < m_height g
      then (case value_at g neighbor_coord of
              Inl e \<Rightarrow> Inl e
            | Inr neighbor_status \<Rightarrow>
                neighbors_loop g this_coord offs
                  (acc @ [\<lparr>m_status = neighbor_status, m_location = neighbor_coord\<rparr>]))
      else neighbors_loop g this_coord offs acc)"

definition neighbors :: "'e Grid \<Rightarrow> int \<Rightarrow> error + Cell list" where
  "neighbors g idx =
     (case to_2d g idx of
        Inl e \<Rightarrow> Inl e
      | Inr this_coord \<Rightarrow> neighbors_loop g this_coord m_neighbor_offsets [])"

text \<open>The loop of \<open>neighborhoods\<close> over the indices \<open>0, ..., m_max - 1\<close>.\<close>

fun neighborhoods_loop ::
  "'e Grid \<Rightarrow> nat list \<Rightarrow> Neighborhood list \<Rightarrow> error + Neighborhood list" where
  "neighborhoods_loop g [] hoods = Inr hoods"
| "neighborhoods_loop g (i # is) hoods =
     (case read_contents g (int i) of
        Inl e \<Rightarrow> Inl e
      | Inr c_status \<Rightarrow>
     (case to_2d g (int i) of
        Inl e \<Rightarrow> Inl e
      | Inr c_coord \<Rightarrow>
     (case neighbors g (int i) of
        Inl e \<Rightarrow> Inl e
      | Inr c_neighbors \<Rightarrow>
          neighborhoods_loop g is
            (hoods @ [\<lparr>m_cell = \<lparr>m_status = c_status, m_location = c_coord\<rparr>,
                       m_neighbors = c_neighbors\<rparr>]))))"

definition neighborhoods :: "'e Grid \<Rightarrow> error + Neighborhood list" where
  "neighborhoods g = neighborhoods_loop g [0 ..< nat (m_max g)] []"

subsection \<open>PlayStrategy\<close>

definition cell_lives :: "bool \<Rightarrow> int \<Rightarrow> bool" where
  "cell_lives alive living_neighbor_count =
     (if living_neighbor_count < 2 \<or> 3 < living_neighbor_count then False
      else if alive then True
      else if living_neighbor_count = 3 then True
      else False)"

fun applyTo_loop :: "'e Grid \<Rightarrow> Neighborhood list \<Rightarrow> error + 'e Grid" where
  "applyTo_loop g [] = Inr g"
| "applyTo_loop g (hood # hoods) =
     (case (if cell_lives (cell_status hood) (count_alive_neighbors hood)
            then activate g (cell_location hood)
            else deactivate g (cell_location hood)) of
        Inl e \<Rightarrow> Inl e
      | Inr g' \<Rightarrow> applyTo_loop g' hoods)"

definition applyTo :: "'e Grid \<Rightarrow> error + 'e Grid" where
  "applyTo g =
     (case neighborhoods g of
        Inl e \<Rightarrow> Inl e
      | Inr hoods \<Rightarrow> applyTo_loop g hoods)"

subsection \<open>Player and Game\<close>

text \<open>
  \<open>Player::play\<close> applies the strategy, \<open>Game::play_round\<close> lets the player play on the
  game's grid, and \<open>main\<close> plays one round per frame: \<open>play_rounds n\<close> is the grid after
  \<open>n\<close> frames.
\<close>

definition play :: "'e Grid \<Rightarrow> error + 'e Grid" where
  "play grid = applyTo grid"

definition play_round :: "'e Grid \<Rightarrow> error + 'e Grid" where
  "play_round m_grid = play m_grid"

fun play_rounds :: "nat \<Rightarrow> 'e Grid \<Rightarrow> error + 'e Grid" where
  "play_rounds 0 g = Inr g"
| "play_rounds (Suc n) g =
     (case play_round g of Inl e \<Rightarrow> Inl e | Inr g' \<Rightarrow> play_rounds n g')"

section \<open>Well-formed grids\<close>

text \<open>
  What the constructor establishes for positive dimensions: \<open>m_max\<close> is the product of
  the dimensions, it is an \<open>int\<close>, and the array holds \<open>m_max\<close> cells.
\<close>

definition grid_shape :: "'e Grid \<Rightarrow> bool" where
  "grid_shape g =
     (0 < m_width g \<and> 0 < m_height g \<and> m_max g = m_width g * m_height g
      \<and> m_max g \<le> INT_MAX \<and> int (length (m_contents g)) = m_max g)"

text \<open>Every cell holds 0 or 1.\<close>

definition binary :: "'e Grid \<Rightarrow> bool" where
  "binary g = list_all (\<lambda>v. v = 0 \<or> v = 1) (m_contents g)"

definition in_bounds :: "'e Grid \<Rightarrow> int \<times> int \<Rightarrow> bool" where
  "in_bounds g c = (0 \<le> fst c \<and> fst c < m_width g \<and> 0 \<le> snd c \<and> snd c < m_height g)"

text \<open>
  The linear index of a coordinate as an integer, the cell snapshot of a coordinate, and
  the neighbourhood snapshot of an index.
\<close>

definition linear_index :: "'e Grid \<Rightarrow> int \<times> int \<Rightarrow> int" where
  "linear_index g c = snd c + fst c * m_height g"

definition cell_at :: "'e Grid \<Rightarrow> int \<times> int \<Rightarrow> Cell" where
  "cell_at g c = \<lparr>m_status = m_contents g ! nat (linear_index g c), m_location = c\<rparr>"

definition shift :: "int \<times> int \<Rightarrow> int \<times> int \<Rightarrow> int \<times> int" where
  "shift c off = (fst c + fst off, snd c + snd off)"

definition neighbor_cells :: "'e Grid \<Rightarrow> int \<times> int \<Rightarrow> Cell list" where
  "neighbor_cells g c =
     map (cell_at g) (filter (in_bounds g) (map (shift c) m_neighbor_offsets))"

definition coord_of :: "'e Grid \<Rightarrow> nat \<Rightarrow> int \<times> int" where
  "coord_of g i = (int i div m_height g, int i mod m_height g)"

definition hood_at :: "'e Grid \<Rightarrow> nat \<Rightarrow> Neighborhood" where
  "hood_at g i =
     \<lparr>m_cell = \<lparr>m_status = m_contents g ! i, m_location = coord_of g i\<rparr>,
      m_neighbors = neighbor_cells g (coord_of g i)\<rparr>"

text \<open>The status that one pass of \<open>applyTo\<close> writes at index \<open>i\<close>.\<close>

definition next_val :: "'e Grid \<Rightarrow> nat \<Rightarrow> int" where
  "next_val g i =
     (if cell_lives (cell_status (hood_at g i)) (count_alive_neighbors (hood_at g i))
      then 1 else 0)"

text \<open>The invariant of the data model: the shape, and every status 0 or 1.\<close>

definition grid_inv :: "'e Grid \<Rightarrow> bool" where
  "grid_inv g = (grid_shape g \<and> binary g)"

text \<open>
  Corner, edge and interior coordinates of a grid: a corner is extreme on both axes, an
  edge coordinate lies on the border and is no corner, an interior one is extreme on
  neither axis.
\<close>

definition is_corner :: "'e Grid \<Rightarrow> int \<times> int \<Rightarrow> bool" where
  "is_corner g c =
     ((fst c = 0 \<or> fst c = m_width g - 1) \<and> (snd c = 0 \<or> snd c = m_height g - 1))"

definition is_edge :: "'e Grid \<Rightarrow> int \<times> int \<Rightarrow> bool" where
  "is_edge g c =
     (in_bounds g c
      \<and> (fst c = 0 \<or> fst c = m_width g - 1 \<or> snd c = 0 \<or> snd c = m_height g - 1)
      \<and> \<not> is_corner g c)"

definition is_interior :: "'e Grid \<Rightarrow> int \<times> int \<Rightarrow> bool" where
  "is_interior g c =
     (0 < fst c \<and> fst c < m_width g - 1 \<and> 0 < snd c \<and> snd c < m_height g - 1)"

text \<open>The coordinates of the living cells, read through \<open>value_at\<close>, first axis outermost.\<close>

definition alive_coords :: "'e Grid \<Rightarrow> (int \<times> int) list" where
  "alive_coords g =
     concat (map (\<lambda>x. concat (map (\<lambda>y.
         (case value_at g (x, y) of Inl e \<Rightarrow> [] | Inr v \<Rightarrow> if v = 0 then [] else [(x, y)]))
       [0 .. m_height g - 1])) [0 .. m_width g - 1])"

text \<open>The engine after \<open>i\<close> draws, and the value of the draw number \<open>i\<close>.\<close>

fun engine_after :: "('e \<Rightarrow> int \<times> 'e) \<Rightarrow> 'e \<Rightarrow> nat \<Rightarrow> 'e" where
  "engine_after draw e 0 = e"
| "engine_after draw e (Suc i) = engine_after draw (snd (draw e)) i"

definition nth_draw :: "('e \<Rightarrow> int \<times> 'e) \<Rightarrow> 'e \<Rightarrow> nat \<Rightarrow> int" where
  "nth_draw draw e i = fst (draw (engine_after draw e i))"

section \<open>Example grids\<close>

text \<open>The horizontal blinker of the specification on a 5 by 5 grid, and its other phase.\<close>

definition blinker_a :: "unit Grid" where
  "blinker_a =
     \<lparr>m_contents = [0, 0, 0, 0, 0,  0, 0, 0, 0, 0,  0, 1, 1, 1, 0,
                    0, 0, 0, 0, 0,  0, 0, 0, 0, 0],
      m_width = 5, m_height = 5, m_max = 25, m_engine = ()\<rparr>"

definition blinker_b :: "unit Grid" where
  "blinker_b =
     \<lparr>m_contents = [0, 0, 0, 0, 0,  0, 0, 1, 0, 0,  0, 0, 1, 0, 0,
                    0, 0, 1, 0, 0,  0, 0, 0, 0, 0],
      m_width = 5, m_height = 5, m_max = 25, m_engine = ()\<rparr>"

text \<open>A grid of width 1 and height 3, a 2 by 2 grid, a dead 3 by 2 grid, a 3 by 3 grid.\<close>

definition strip :: "unit Grid" where
  "strip = \<lparr>m_contents = [1, 0, 1], m_width = 1, m_height = 3, m_max = 3, m_engine = ()\<rparr>"

definition block :: "unit Grid" where
  "block = \<lparr>m_contents = [0, 1, 1, 0], m_width = 2, m_height = 2, m_max = 4, m_engine = ()\<rparr>"

definition dead_grid :: "unit Grid" where
  "dead_grid =
     \<lparr>m_contents = [0, 0, 0, 0, 0, 0], m_width = 3, m_height = 2, m_max = 6, m_engine = ()\<rparr>"

definition cross :: "unit Grid" where
  "cross =
     \<lparr>m_contents = [0, 1, 0,  1, 1, 1,  0, 1, 0],
      m_width = 3, m_height = 3, m_max = 9, m_engine = ()\<rparr>"

text \<open>A toy engine: the state is a counter, a draw returns its parity.\<close>

definition parity_draw :: "nat \<Rightarrow> int \<times> nat" where
  "parity_draw e = (int (e mod 2), Suc e)"

section \<open>The reference step of the specification\<close>

text \<open>
  The synchronous (double-buffered) generation as the specification words it, written
  without the program's functions: the transition table, the eight offset vectors
  \<open>{(\<plusminus>1,\<plusminus>1), (\<plusminus>1,0), (0,\<plusminus>1)}\<close>, a neighbour being a shifted coordinate
  inside \<open>[0,width) \<times> [0,height)\<close>, statuses stored as 0 and 1 at the linear index
  \<open>second + first * height\<close>, and every new status computed from the old generation.
\<close>

definition spec_next_status :: "bool \<Rightarrow> int \<Rightarrow> bool" where
  "spec_next_status currently_alive living_neighbor_count =
     (if living_neighbor_count < 2 then False
      else if living_neighbor_count > 3 then False
      else if currently_alive then True
      else if living_neighbor_count = 3 then True
      else False)"

definition spec_offsets :: "(int \<times> int) list" where
  "spec_offsets =
     [(1, 1), (1, -1), (-1, 1), (-1, -1), (1, 0), (-1, 0), (0, 1), (0, -1)]"

definition spec_alive :: "'e Grid \<Rightarrow> int \<times> int \<Rightarrow> bool" where
  "spec_alive g c = (m_contents g ! nat (snd c + fst c * m_height g) = 1)"

definition spec_neighbors :: "'e Grid \<Rightarrow> int \<times> int \<Rightarrow> (int \<times> int) list" where
  "spec_neighbors g c =
     filter (\<lambda>n. 0 \<le> fst n \<and> fst n < m_width g \<and> 0 \<le> snd n \<and> snd n < m_height g)
       (map (\<lambda>off. (fst c + fst off, snd c + snd off)) spec_offsets)"

definition spec_living_neighbor_count :: "'e Grid \<Rightarrow> int \<times> int \<Rightarrow> int" where
  "spec_living_neighbor_count g c = int (length (filter (spec_alive g) (spec_neighbors g c)))"

definition spec_coordinate :: "'e Grid \<Rightarrow> nat \<Rightarrow> int \<times> int" where
  "spec_coordinate g i = (int i div m_height g, int i mod m_height g)"

definition spec_step :: "'e Grid \<Rightarrow> 'e Grid" where
  "spec_step g =
     g\<lparr>m_contents :=
         map (\<lambda>i. if spec_next_status (spec_alive g (spec_coordinate g i))
                        (spec_living_neighbor_count g (spec_coordinate g i))
                   then 1 else 0)
           [0 ..< nat (m_width g * m_height g)]\<rparr>"

section \<open>The transition function\<close>

text \<open>
  C1. \<open>cell_lives\<close> is false below two and above three living neighbours, true for a living
  cell with two or three, true for a dead cell with exactly three, and false for a dead
  cell with two; the eighteen rows of the table for the counts 0 to 8 are listed.
\<close>

theorem cell_lives_table:
  "cell_lives alive n =
     (if n < 2 then False else if n > 3 then False
      else if alive then True else if n = 3 then True else False)
   \<and> map (cell_lives True) [0, 1, 2, 3, 4, 5, 6, 7, 8]
       = [False, False, True, True, False, False, False, False, False]
   \<and> map (cell_lives False) [0, 1, 2, 3, 4, 5, 6, 7, 8]
       = [False, False, False, True, False, False, False, False, False]"
  by (simp add: cell_lives_def)

section \<open>Coordinates, neighbourhood snapshots and one pass of the strategy\<close>

subsection \<open>Indices and coordinates\<close>

lemma sdiv_nonneg: "0 \<le> a \<Longrightarrow> 0 < b \<Longrightarrow> (a::int) sdiv b = a div b"
  by (simp add: signed_divide_int_def sgn_if)

lemma smod_nonneg: "0 \<le> a \<Longrightarrow> 0 < b \<Longrightarrow> (a::int) smod b = a mod b"
  by (simp add: signed_modulo_int_def sgn_if)

lemma to_2d_coord_of:
  "0 < m_height g \<Longrightarrow> to_2d g (int i) = Inr (coord_of g i)"
  by (simp add: to_2d_def coord_of_def sdiv_nonneg smod_nonneg)

lemma linear_index_coord_of:
  "linear_index g (coord_of g i) = int i"
  by (simp add: linear_index_def coord_of_def)

lemma linear_index_range:
  assumes "in_bounds g c" "0 < m_height g"
  shows "0 \<le> fst c * m_height g \<and> fst c * m_height g \<le> linear_index g c
     \<and> linear_index g c < m_width g * m_height g"
proof -
  obtain a b where c: "c = (a, b)" by (cases c)
  from assms c have a: "0 \<le> a" "a + 1 \<le> m_width g" and b: "0 \<le> b" "b < m_height g"
    by (simp_all add: in_bounds_def)
  have "0 \<le> a * m_height g" using a assms(2) by simp
  moreover have "(a + 1) * m_height g \<le> m_width g * m_height g"
    using a assms(2) by (intro mult_right_mono) simp_all
  ultimately show ?thesis using b c by (simp add: linear_index_def algebra_simps)
qed

lemma to_1d_representable:
  assumes "0 \<le> fst c * m_height g" "fst c * m_height g \<le> linear_index g c"
    "linear_index g c \<le> INT_MAX"
  shows "to_1d g c = Inr (linear_index g c)"
  using assms by (simp add: to_1d_def in_int_range_def linear_index_def INT_MIN_def)

lemma to_1d_in_bounds:
  assumes "grid_shape g" "in_bounds g c"
  shows "to_1d g c = Inr (linear_index g c)"
proof -
  from assms(1) have h: "0 < m_height g" and m: "m_width g * m_height g \<le> INT_MAX"
    by (simp_all add: grid_shape_def)
  from linear_index_range [OF assms(2) h] m show ?thesis
    by (intro to_1d_representable) simp_all
qed

lemma linear_index_in_range:
  assumes "grid_shape g" "in_bounds g c"
  shows "0 \<le> linear_index g c \<and> nat (linear_index g c) < length (m_contents g)"
proof -
  from assms(1) have h: "0 < m_height g" by (simp add: grid_shape_def)
  from linear_index_range [OF assms(2) h] assms(1)
  have "0 \<le> linear_index g c" "linear_index g c < int (length (m_contents g))"
    by (simp_all add: grid_shape_def)
  then show ?thesis by linarith
qed

lemma int_div_less:
  assumes "(i::int) < w * h" "0 < h"
  shows "i div h < w"
proof (rule ccontr)
  assume "\<not> i div h < w"
  then have "w * h \<le> (i div h) * h"
    using assms(2) by (simp add: mult_right_mono)
  moreover have "(i div h) * h + i mod h = i" by simp
  moreover have "0 \<le> i mod h" using assms(2) by simp
  ultimately show False using assms(1) by linarith
qed

lemma coord_of_in_bounds:
  assumes "grid_shape g" "int i < m_max g"
  shows "in_bounds g (coord_of g i)"
proof -
  from assms have h: "0 < m_height g" and lt: "int i < m_width g * m_height g"
    by (simp_all add: grid_shape_def)
  have "int i div m_height g < m_width g"
    using lt h by (rule int_div_less)
  moreover have "0 \<le> int i div m_height g" using h by (simp add: pos_imp_zdiv_nonneg_iff)
  ultimately show ?thesis using h by (simp add: in_bounds_def coord_of_def)
qed

lemma coord_of_linear_index:
  assumes "0 < m_height g" "in_bounds g c"
  shows "0 \<le> linear_index g c \<and> coord_of g (nat (linear_index g c)) = c"
proof -
  from linear_index_range [OF assms(2,1)] have nn: "0 \<le> linear_index g c" by simp
  from assms have "(snd c + fst c * m_height g) div m_height g = fst c"
    and "(snd c + fst c * m_height g) mod m_height g = snd c"
    by (simp_all add: in_bounds_def)
  with nn show ?thesis by (simp add: coord_of_def linear_index_def)
qed

lemma value_at_in_bounds:
  assumes "grid_shape g" "in_bounds g c"
  shows "value_at g c = Inr (m_contents g ! nat (linear_index g c))"
proof -
  from linear_index_in_range [OF assms]
  have "0 \<le> linear_index g c" "linear_index g c < int (length (m_contents g))"
    by linarith+
  then show ?thesis
    by (simp add: value_at_def to_1d_in_bounds [OF assms] read_contents_def)
qed

subsection \<open>The snapshots taken by \<open>neighbors\<close> and \<open>neighborhoods\<close>\<close>

lemma neighbors_loop_eq:
  assumes "grid_shape g"
  shows "neighbors_loop g c offs acc
         = Inr (acc @ map (cell_at g) (filter (in_bounds g) (map (shift c) offs)))"
proof (induction offs arbitrary: acc)
  case Nil
  show ?case by simp
next
  case (Cons off offs)
  show ?case
  proof (cases "in_bounds g (shift c off)")
    case True
    then show ?thesis
      using Cons [of "acc @ [cell_at g (shift c off)]"] value_at_in_bounds [OF assms True]
      by (simp add: Let_def in_bounds_def shift_def cell_at_def)
  next
    case False
    then show ?thesis
      using Cons [of acc] by (auto simp add: Let_def in_bounds_def shift_def)
  qed
qed

lemma neighbors_eq:
  assumes "grid_shape g"
  shows "neighbors g (int i) = Inr (neighbor_cells g (coord_of g i))"
proof -
  from assms have "0 < m_height g" by (simp add: grid_shape_def)
  then show ?thesis
    by (simp add: neighbors_def to_2d_coord_of neighbors_loop_eq [OF assms] neighbor_cells_def)
qed

lemma neighborhoods_loop_eq:
  assumes "grid_shape g" "\<forall>i \<in> set is. int i < m_max g"
  shows "neighborhoods_loop g is hoods = Inr (hoods @ map (hood_at g) is)"
  using assms(2)
proof (induction "is" arbitrary: hoods)
  case Nil
  show ?case by simp
next
  case (Cons i "is")
  from assms(1) have h: "0 < m_height g" by (simp add: grid_shape_def)
  from Cons.prems assms(1) have r: "read_contents g (int i) = Inr (m_contents g ! i)"
    by (simp add: read_contents_def grid_shape_def)
  from Cons.prems have "\<forall>i \<in> set is. int i < m_max g" by simp
  from Cons.IH [OF this] show ?case
    by (simp add: r to_2d_coord_of [OF h] neighbors_eq [OF assms(1)] hood_at_def)
qed

lemma neighborhoods_eq:
  assumes "grid_shape g"
  shows "neighborhoods g = Inr (map (hood_at g) [0 ..< nat (m_max g)])"
proof -
  have "\<forall>i \<in> set [0 ..< nat (m_max g)]. int i < m_max g" by auto
  from neighborhoods_loop_eq [OF assms this, of "[]"] show ?thesis
    by (simp add: neighborhoods_def)
qed

lemma count_alive_loop_eq:
  "count_alive_loop cs n = n + int (length (filter is_alive cs))"
  by (induction cs arbitrary: n) simp_all

subsection \<open>Agreement with the reference step\<close>

lemma length_filter_sum:
  "int (length (filter P xs)) = sum_list (map (\<lambda>x. if P x then 1 else 0) xs)"
  by (induction xs) simp_all

lemma count_spec_eq:
  "int (length (filter P (filter Q (map f m_neighbor_offsets))))
   = int (length (filter P (filter Q (map f spec_offsets))))"
  by (simp only: filter_filter length_filter_sum m_neighbor_offsets_def spec_offsets_def
        list.map sum_list.Cons sum_list.Nil add_0_right add.left_commute add.commute)

lemma nth_binary:
  "binary g \<Longrightarrow> i < length (m_contents g) \<Longrightarrow> (m_contents g ! i \<noteq> 0) = (m_contents g ! i = 1)"
  by (auto simp add: binary_def list_all_length)

lemma is_alive_cell_at:
  assumes "grid_shape g" "binary g" "in_bounds g c"
  shows "is_alive (cell_at g c) = spec_alive g c"
proof -
  from linear_index_in_range [OF assms(1,3)]
  have "nat (linear_index g c) < length (m_contents g)" by simp
  from nth_binary [OF assms(2) this] show ?thesis
    by (simp add: is_alive_def cell_at_def spec_alive_def linear_index_def)
qed

lemma filter_map_cell_at:
  assumes "grid_shape g" "binary g"
  shows "\<forall>c \<in> set cs. in_bounds g c \<Longrightarrow>
     length (filter is_alive (map (cell_at g) cs)) = length (filter (spec_alive g) cs)"
  by (induction cs) (simp_all add: is_alive_cell_at [OF assms])

lemma count_alive_neighbors_spec:
  assumes "grid_shape g" "binary g"
  shows "count_alive_neighbors (hood_at g i)
         = spec_living_neighbor_count g (spec_coordinate g i)"
proof -
  let ?c = "coord_of g i"
  have "int (length (filter is_alive (neighbor_cells g ?c)))
        = int (length (filter (spec_alive g)
            (filter (in_bounds g) (map (shift ?c) m_neighbor_offsets))))"
    unfolding neighbor_cells_def
    by (subst filter_map_cell_at [OF assms]) simp_all
  also have "\<dots> = int (length (filter (spec_alive g)
            (filter (in_bounds g) (map (shift ?c) spec_offsets))))"
    by (rule count_spec_eq)
  finally show ?thesis
    by (simp add: count_alive_neighbors_def count_alive_loop_eq hood_at_def
        spec_living_neighbor_count_def spec_neighbors_def spec_coordinate_def coord_of_def
        in_bounds_def [abs_def] shift_def [abs_def])
qed

lemma cell_status_spec:
  assumes "grid_shape g" "binary g" "int i < m_max g"
  shows "cell_status (hood_at g i) = spec_alive g (spec_coordinate g i)"
proof -
  from assms(1) have h: "0 < m_height g" by (simp add: grid_shape_def)
  from assms(1,3) have "i < length (m_contents g)" by (simp add: grid_shape_def)
  from nth_binary [OF assms(2) this] show ?thesis
    using h by (simp add: cell_status_def hood_at_def is_alive_def spec_alive_def
        spec_coordinate_def)
qed

lemma cell_lives_spec: "cell_lives a n = spec_next_status a n"
  by (simp add: cell_lives_def spec_next_status_def)

subsection \<open>The writing loop of \<open>applyTo\<close>\<close>

lemma to_1d_coord_of:
  assumes "0 < m_height g" "int i \<le> INT_MAX"
  shows "to_1d g (coord_of g i) = Inr (int i)"
proof -
  have "0 \<le> int i div m_height g" using assms(1) by (simp add: pos_imp_zdiv_nonneg_iff)
  then have "0 \<le> fst (coord_of g i) * m_height g"
    using assms(1) by (simp add: coord_of_def)
  moreover have "0 \<le> snd (coord_of g i)" using assms(1) by (simp add: coord_of_def)
  then have "fst (coord_of g i) * m_height g \<le> linear_index g (coord_of g i)"
    unfolding linear_index_def by linarith
  ultimately have "to_1d g (coord_of g i) = Inr (linear_index g (coord_of g i))"
    using assms(2) by (intro to_1d_representable) (simp_all add: linear_index_coord_of)
  then show ?thesis by (simp add: linear_index_coord_of)
qed

lemma applyTo_loop_eq:
  assumes "0 < m_height g0"
  shows "m_height g = m_height g0 \<Longrightarrow> int (length (m_contents g)) \<le> INT_MAX \<Longrightarrow>
     \<forall>i \<in> set is. i < length (m_contents g) \<Longrightarrow>
     applyTo_loop g (map (hood_at g0) is)
     = Inr (g\<lparr>m_contents := fold (\<lambda>i cs. cs[i := next_val g0 i]) is (m_contents g)\<rparr>)"
proof (induction "is" arbitrary: g)
  case Nil
  show ?case by simp
next
  case (Cons i "is")
  let ?g' = "g\<lparr>m_contents := (m_contents g)[i := next_val g0 i]\<rparr>"
  from Cons.prems(2,3) have "int i \<le> INT_MAX" by simp
  with assms Cons.prems(1) have "to_1d g (coord_of g i) = Inr (int i)"
    by (intro to_1d_coord_of) simp_all
  moreover have "coord_of g i = coord_of g0 i"
    using Cons.prems(1) by (simp add: coord_of_def)
  ultimately have loc: "to_1d g (cell_location (hood_at g0 i)) = Inr (int i)"
    by (simp add: cell_location_def coord_def hood_at_def)
  have step: "(if cell_lives (cell_status (hood_at g0 i)) (count_alive_neighbors (hood_at g0 i))
               then activate g (cell_location (hood_at g0 i))
               else deactivate g (cell_location (hood_at g0 i))) = Inr ?g'"
    using Cons.prems(3)
    by (simp add: activate_def deactivate_def loc write_contents_def next_val_def)
  have "applyTo_loop ?g' (map (hood_at g0) is)
        = Inr (?g'\<lparr>m_contents := fold (\<lambda>i cs. cs[i := next_val g0 i]) is (m_contents ?g')\<rparr>)"
    using Cons.prems by (intro Cons.IH) simp_all
  then show ?case by (simp add: step)
qed

lemma fold_update_upt:
  "k \<le> length cs \<Longrightarrow>
   fold (\<lambda>i cs. cs[i := f i]) [0 ..< k] cs = map f [0 ..< k] @ drop k cs"
proof (induction k)
  case 0
  show ?case by simp
next
  case (Suc k)
  then have "k < length cs" by simp
  then have "(map f [0 ..< k] @ drop k cs)[k := f k] = map f [0 ..< k] @ f k # drop (Suc k) cs"
    by (simp add: list_update_append upd_conv_take_nth_drop)
  with Suc show ?case by simp
qed

lemma applyTo_eq:
  assumes "grid_shape g"
  shows "applyTo g = Inr (g\<lparr>m_contents := map (next_val g) [0 ..< nat (m_max g)]\<rparr>)"
proof -
  from assms have h: "0 < m_height g" and l: "int (length (m_contents g)) = m_max g"
    and m: "m_max g \<le> INT_MAX"
    by (simp_all add: grid_shape_def)
  from l have len: "length (m_contents g) = nat (m_max g)" by linarith
  have "applyTo_loop g (map (hood_at g) [0 ..< nat (m_max g)])
        = Inr (g\<lparr>m_contents :=
            fold (\<lambda>i cs. cs[i := next_val g i]) [0 ..< nat (m_max g)] (m_contents g)\<rparr>)"
    using len l m by (intro applyTo_loop_eq [OF h]) simp_all
  then show ?thesis
    using fold_update_upt [of "nat (m_max g)" "m_contents g" "next_val g"] len
    by (simp add: applyTo_def neighborhoods_eq [OF assms])
qed

subsection \<open>The offsets table and the number of neighbours\<close>


lemma corner_count:
  assumes "2 \<le> m_width g" "2 \<le> m_height g" "is_corner g c"
  shows "length (neighbor_cells g c) = 3"
  using assms
  by (auto simp add: neighbor_cells_def m_neighbor_offsets_def shift_def in_bounds_def is_corner_def)

lemma edge_count:
  assumes "2 \<le> m_width g" "2 \<le> m_height g" "is_edge g c"
  shows "length (neighbor_cells g c) = 5"
  using assms
  by (auto simp add: neighbor_cells_def m_neighbor_offsets_def shift_def in_bounds_def is_edge_def is_corner_def)

lemma interior_count:
  assumes "is_interior g c"
  shows "length (neighbor_cells g c) = 8"
  using assms
  by (auto simp add: neighbor_cells_def m_neighbor_offsets_def shift_def in_bounds_def is_interior_def)

lemma position_cases:
  "in_bounds g c \<Longrightarrow> is_corner g c \<or> is_edge g c \<or> is_interior g c"
  by (auto simp add: in_bounds_def is_corner_def is_edge_def is_interior_def)

subsection \<open>Dead neighbourhoods\<close>

lemma neighbor_cells_dead:
  assumes "grid_shape g" "list_all (\<lambda>v. v = 0) (m_contents g)"
  shows "filter is_alive (neighbor_cells g c) = []"
proof -
  have "\<not> is_alive (cell_at g n)" if "in_bounds g n" for n
  proof -
    from linear_index_in_range [OF assms(1) that]
    have "nat (linear_index g n) < length (m_contents g)" by simp
    with assms(2) show ?thesis
      by (simp add: is_alive_def cell_at_def list_all_length)
  qed
  then show ?thesis by (simp add: neighbor_cells_def filter_empty_conv)
qed

subsection \<open>The constructor and the invariant\<close>

lemma nth_draw_Suc: "nth_draw draw e (Suc i) = nth_draw draw (snd (draw e)) i"
  by (simp add: nth_draw_def)

lemma fill_loop_eq:
  "fill_loop draw n e acc = (acc @ map (nth_draw draw e) [0 ..< n], engine_after draw e n)"
proof (induction n arbitrary: e acc)
  case 0
  show ?case by simp
next
  case (Suc n)
  have "map (nth_draw draw e) [0 ..< Suc n]
        = nth_draw draw e 0 # map (nth_draw draw (snd (draw e))) [0 ..< n]"
    by (simp only: map_upt_Suc nth_draw_Suc)
  moreover have "nth_draw draw e 0 = fst (draw e)" by (simp add: nth_draw_def)
  ultimately show ?case
    using Suc [of "snd (draw e)" "acc @ [fst (draw e)]"]
    by (simp add: case_prod_unfold del: upt_Suc)
qed

lemma Grid_ctor_eq:
  assumes "0 \<le> w * h" "w * h \<le> INT_MAX"
  shows "Grid_ctor draw e0 w h =
     Inr \<lparr>m_contents = map (nth_draw draw e0) [0 ..< nat (w * h)], m_width = w, m_height = h,
          m_max = w * h, m_engine = engine_after draw e0 (nat (w * h))\<rparr>"
  using assms by (simp add: Grid_ctor_def fill_loop_eq in_int_range_def INT_MIN_def)

lemma Grid_ctor_Inr:
  assumes "Grid_ctor draw e0 w h = Inr g"
  shows "0 \<le> w * h \<and> w * h \<le> INT_MAX"
  using assms by (simp add: Grid_ctor_def in_int_range_def split: if_splits)

lemma write_contents_inv:
  assumes "grid_inv g" "v = 0 \<or> v = 1" "write_contents g idx v = Inr g'"
  shows "grid_inv g' \<and> m_width g' = m_width g \<and> m_height g' = m_height g"
proof -
  from assms(3) have g': "g' = g\<lparr>m_contents := (m_contents g)[nat idx := v]\<rparr>"
    by (simp add: write_contents_def split: if_splits)
  have "set ((m_contents g)[nat idx := v]) \<subseteq> insert v (set (m_contents g))"
    by (rule set_update_subset_insert)
  with assms(1,2) have "binary g'"
    by (auto simp add: g' grid_inv_def binary_def list_all_iff)
  with assms(1) show ?thesis by (simp add: g' grid_inv_def grid_shape_def)
qed

lemma applyTo_inv:
  assumes "grid_shape g"
  shows "\<exists>g'. applyTo g = Inr g' \<and> grid_inv g' \<and> m_width g' = m_width g
           \<and> m_height g' = m_height g"
proof -
  let ?g' = "g\<lparr>m_contents := map (next_val g) [0 ..< nat (m_max g)]\<rparr>"
  from assms have "int (length (m_contents g)) = m_max g" by (simp add: grid_shape_def)
  then have "0 \<le> m_max g" by linarith
  with assms have "grid_shape ?g'" by (simp add: grid_shape_def)
  moreover have "next_val g i = 0 \<or> next_val g i = 1" for i
    by (simp add: next_val_def)
  then have "binary ?g'" by (simp add: binary_def list_all_iff)
  ultimately show ?thesis by (simp add: applyTo_eq [OF assms] grid_inv_def)
qed

lemma Grid_ctor_overflow_example:
  "Grid_ctor draw e0 65536 65536 = Inl Overflow"
  by (simp add: Grid_ctor_def in_int_range_def INT_MAX_def)

section \<open>One pass against the reference step\<close>

text \<open>
  C2. On a grid with positive dimensions whose cells hold 0 or 1, one call of \<open>applyTo\<close>
  returns and leaves the grid that the synchronous reference step of the specification
  computes: every cell's new status is the transition function applied to its status and
  its count of living neighbours in the grid before the call.
\<close>

theorem applyTo_refines_spec_step:
  assumes "grid_shape g" "binary g"
  shows "applyTo g = Inr (spec_step g)"
proof -
  have "map (next_val g) [0 ..< nat (m_max g)]
        = map (\<lambda>i. if spec_next_status (spec_alive g (spec_coordinate g i))
                        (spec_living_neighbor_count g (spec_coordinate g i))
                   then 1 else 0) [0 ..< nat (m_max g)]"
    by (rule map_cong [OF refl])
       (simp add: next_val_def cell_lives_spec count_alive_neighbors_spec [OF assms]
          cell_status_spec [OF assms])
  moreover from assms(1) have "m_max g = m_width g * m_height g"
    by (simp add: grid_shape_def)
  ultimately show ?thesis
    by (simp add: applyTo_eq [OF assms(1)] spec_step_def)
qed

theorem applyTo_refines_spec_step_witness:
  "grid_shape cross \<and> binary cross \<and> applyTo cross = Inr (spec_step cross)
   \<and> m_contents (spec_step cross) = [1, 1, 1,  1, 0, 1,  1, 1, 1]"
proof -
  have a: "grid_shape cross" by (simp add: grid_shape_def cross_def INT_MAX_def)
  have b: "binary cross" by (simp add: binary_def cross_def)
  have c: "m_contents (spec_step cross) = [1, 1, 1,  1, 0, 1,  1, 1, 1]" by code_simp
  from applyTo_refines_spec_step [OF a b] a b c show ?thesis by simp
qed

section \<open>Linear indices and coordinates\<close>

text \<open>
  C3. On a grid with positive width and height (their product, the number of cells, being
  an \<open>int\<close>), \<open>to_2d\<close> sends a linear index \<open>i\<close> of \<open>[0, width * height)\<close> to
  \<open>(i div height, i mod height)\<close>, a coordinate inside the grid, and \<open>to_1d\<close> sends that
  coordinate back to \<open>i\<close>; \<open>to_1d\<close> of a coordinate inside the grid is
  \<open>second + first * height\<close>, an index of \<open>[0, width * height)\<close>, and \<open>to_2d\<close> sends that
  index back to the coordinate.
\<close>

theorem to_2d_to_1d_inverse:
  assumes "0 < m_width g" "0 < m_height g" "m_width g * m_height g \<le> INT_MAX"
  shows "(0 \<le> i \<and> i < m_width g * m_height g \<longrightarrow>
            to_2d g i = Inr (i div m_height g, i mod m_height g)
          \<and> in_bounds g (i div m_height g, i mod m_height g)
          \<and> to_1d g (i div m_height g, i mod m_height g) = Inr i)
       \<and> (in_bounds g c \<longrightarrow>
            to_1d g c = Inr (snd c + fst c * m_height g)
          \<and> 0 \<le> snd c + fst c * m_height g
          \<and> snd c + fst c * m_height g < m_width g * m_height g
          \<and> to_2d g (snd c + fst c * m_height g) = Inr c)"
proof (intro conjI impI)
  assume i: "0 \<le> i \<and> i < m_width g * m_height g"
  then show "to_2d g i = Inr (i div m_height g, i mod m_height g)"
    using assms(2) by (simp add: to_2d_def sdiv_nonneg smod_nonneg)
  have "i div m_height g < m_width g"
    using i assms(2) by (intro int_div_less) simp_all
  moreover have "0 \<le> i div m_height g"
    using i assms(2) by (simp add: pos_imp_zdiv_nonneg_iff)
  ultimately show "in_bounds g (i div m_height g, i mod m_height g)"
    using assms(2) by (simp add: in_bounds_def)
  from i assms(3) have "int (nat i) \<le> INT_MAX" by simp
  from to_1d_coord_of [OF assms(2) this] i
  show "to_1d g (i div m_height g, i mod m_height g) = Inr i"
    by (simp add: coord_of_def)
next
  assume c: "in_bounds g c"
  from linear_index_range [OF c assms(2)]
  have r: "0 \<le> fst c * m_height g" "fst c * m_height g \<le> linear_index g c"
    "linear_index g c < m_width g * m_height g"
    by simp_all
  with assms(3) have "to_1d g c = Inr (linear_index g c)"
    by (intro to_1d_representable) simp_all
  then show "to_1d g c = Inr (snd c + fst c * m_height g)"
    by (simp add: linear_index_def)
  from r show "0 \<le> snd c + fst c * m_height g"
    and "snd c + fst c * m_height g < m_width g * m_height g"
    by (simp_all add: linear_index_def)
  from coord_of_linear_index [OF assms(2) c]
  have "0 \<le> linear_index g c" and "coord_of g (nat (linear_index g c)) = c" by simp_all
  with to_2d_coord_of [OF assms(2), of "nat (linear_index g c)"]
  show "to_2d g (snd c + fst c * m_height g) = Inr c"
    by (simp add: linear_index_def)
qed

theorem to_2d_to_1d_inverse_witness:
  "0 < m_width dead_grid \<and> 0 < m_height dead_grid
   \<and> m_width dead_grid * m_height dead_grid \<le> INT_MAX \<and> in_bounds dead_grid (2, 1)
   \<and> to_2d dead_grid 5 = Inr (2, 1) \<and> to_1d dead_grid (2, 1) = Inr 5"
proof -
  have a: "0 < m_width dead_grid" and b: "0 < m_height dead_grid"
    and m: "m_width dead_grid * m_height dead_grid \<le> INT_MAX"
    by (simp_all add: dead_grid_def INT_MAX_def)
  have c: "in_bounds dead_grid (2, 1)" by (simp add: in_bounds_def dead_grid_def)
  have d: "m_width dead_grid = 3" "m_height dead_grid = 2" by (simp_all add: dead_grid_def)
  from to_2d_to_1d_inverse [OF a b m, of 5 "(2, 1)"] a b c m show ?thesis
    by (simp add: d)
qed

section \<open>Neighbour enumeration\<close>



section \<open>The neighbourhoods of a grid\<close>

text \<open>
  C5, amended. On a grid with positive dimensions \<open>neighborhoods\<close> returns
  \<open>width * height\<close> elements, the element number \<open>i\<close> being the cell of the linear index
  \<open>i\<close> with its coordinate and its status. An interior cell has 8 neighbours; when the
  width and the height are both at least 2, a corner cell has 3 and an edge cell that is
  no corner has 5. Every cell is a corner, an edge or an interior cell. On a grid of
  width or height 1 the corner and edge counts are smaller: on the grid \<open>strip\<close> of
  width 1 and height 3 the two corners have 1 neighbour and the edge cell has 2.
\<close>

theorem neighborhoods_sizes:
  assumes "grid_shape g"
  shows "\<exists>hoods. neighborhoods g = Inr hoods
     \<and> length hoods = nat (m_width g * m_height g)
     \<and> (\<forall>i < length hoods.
           to_2d g (int i) = Inr (cell_location (hoods ! i))
         \<and> m_status (m_cell (hoods ! i)) = m_contents g ! i
         \<and> (2 \<le> m_width g \<and> 2 \<le> m_height g \<and> is_corner g (cell_location (hoods ! i))
              \<longrightarrow> length (m_neighbors (hoods ! i)) = 3)
         \<and> (2 \<le> m_width g \<and> 2 \<le> m_height g \<and> is_edge g (cell_location (hoods ! i))
              \<longrightarrow> length (m_neighbors (hoods ! i)) = 5)
         \<and> (is_interior g (cell_location (hoods ! i)) \<longrightarrow> length (m_neighbors (hoods ! i)) = 8)
         \<and> (is_corner g (cell_location (hoods ! i)) \<or> is_edge g (cell_location (hoods ! i))
              \<or> is_interior g (cell_location (hoods ! i))))"
proof -
  let ?n = "nat (m_max g)"
  let ?hoods = "map (hood_at g) [0 ..< ?n]"
  from assms(1) have h: "0 < m_height g" and m: "m_max g = m_width g * m_height g"
    by (simp_all add: grid_shape_def)
  have loc: "cell_location (hood_at g i) = coord_of g i" for i
    by (simp add: cell_location_def coord_def hood_at_def)
  have len: "m_neighbors (hood_at g i) = neighbor_cells g (coord_of g i)" for i
    by (simp add: hood_at_def)
  have "\<forall>i < length ?hoods.
           to_2d g (int i) = Inr (cell_location (?hoods ! i))
         \<and> m_status (m_cell (?hoods ! i)) = m_contents g ! i
         \<and> (2 \<le> m_width g \<and> 2 \<le> m_height g \<and> is_corner g (cell_location (?hoods ! i))
              \<longrightarrow> length (m_neighbors (?hoods ! i)) = 3)
         \<and> (2 \<le> m_width g \<and> 2 \<le> m_height g \<and> is_edge g (cell_location (?hoods ! i))
              \<longrightarrow> length (m_neighbors (?hoods ! i)) = 5)
         \<and> (is_interior g (cell_location (?hoods ! i)) \<longrightarrow> length (m_neighbors (?hoods ! i)) = 8)
         \<and> (is_corner g (cell_location (?hoods ! i)) \<or> is_edge g (cell_location (?hoods ! i))
              \<or> is_interior g (cell_location (?hoods ! i)))"
  proof (intro allI impI)
    fix i assume "i < length ?hoods"
    then have i: "i < ?n" by simp
    then have "int i < m_max g" by linarith
    from coord_of_in_bounds [OF assms(1) this] have "in_bounds g (coord_of g i)" .
    from position_cases [OF this] i
    show "to_2d g (int i) = Inr (cell_location (?hoods ! i))
         \<and> m_status (m_cell (?hoods ! i)) = m_contents g ! i
         \<and> (2 \<le> m_width g \<and> 2 \<le> m_height g \<and> is_corner g (cell_location (?hoods ! i))
              \<longrightarrow> length (m_neighbors (?hoods ! i)) = 3)
         \<and> (2 \<le> m_width g \<and> 2 \<le> m_height g \<and> is_edge g (cell_location (?hoods ! i))
              \<longrightarrow> length (m_neighbors (?hoods ! i)) = 5)
         \<and> (is_interior g (cell_location (?hoods ! i)) \<longrightarrow> length (m_neighbors (?hoods ! i)) = 8)
         \<and> (is_corner g (cell_location (?hoods ! i)) \<or> is_edge g (cell_location (?hoods ! i))
              \<or> is_interior g (cell_location (?hoods ! i)))"
      by (simp add: loc len to_2d_coord_of [OF h] corner_count edge_count interior_count)
         (simp add: hood_at_def)
  qed
  moreover have "length ?hoods = nat (m_width g * m_height g)" by (simp add: m)
  ultimately show ?thesis using neighborhoods_eq [OF assms(1)] by blast
qed

theorem neighborhoods_sizes_witness:
  "grid_shape blinker_a \<and> 2 \<le> m_width blinker_a \<and> 2 \<le> m_height blinker_a
   \<and> (case neighborhoods blinker_a of Inl e \<Rightarrow> []
       | Inr hoods \<Rightarrow> map (\<lambda>hood. length (m_neighbors hood)) hoods)
     = [3, 5, 5, 5, 3,  5, 8, 8, 8, 5,  5, 8, 8, 8, 5,  5, 8, 8, 8, 5,  3, 5, 5, 5, 3]"
proof -
  have a: "grid_shape blinker_a" by (simp add: grid_shape_def blinker_a_def INT_MAX_def)
  have b: "2 \<le> m_width blinker_a" and c: "2 \<le> m_height blinker_a"
    by (simp_all add: blinker_a_def)
  have d: "(case neighborhoods blinker_a of Inl e \<Rightarrow> []
       | Inr hoods \<Rightarrow> map (\<lambda>hood. length (m_neighbors hood)) hoods)
     = [3, 5, 5, 5, 3,  5, 8, 8, 8, 5,  5, 8, 8, 8, 5,  5, 8, 8, 8, 5,  3, 5, 5, 5, 3]"
    by code_simp
  from neighborhoods_sizes [OF a] a b c d show ?thesis by simp
qed

theorem narrow_grid_counterexample:
  "grid_shape strip \<and> is_corner strip (0, 0) \<and> is_edge strip (0, 1) \<and> is_corner strip (0, 2)
   \<and> (case neighborhoods strip of Inl e \<Rightarrow> []
       | Inr hoods \<Rightarrow> map (\<lambda>hood. (cell_location hood, length (m_neighbors hood))) hoods)
     = [((0, 0), 1), ((0, 1), 2), ((0, 2), 1)]"
proof -
  have a: "grid_shape strip \<and> is_corner strip (0, 0) \<and> is_edge strip (0, 1)
      \<and> is_corner strip (0, 2)"
    by (simp add: grid_shape_def is_corner_def is_edge_def in_bounds_def strip_def INT_MAX_def)
  have b: "(case neighborhoods strip of Inl e \<Rightarrow> []
       | Inr hoods \<Rightarrow> map (\<lambda>hood. (cell_location hood, length (m_neighbors hood))) hoods)
     = [((0, 0), 1), ((0, 1), 2), ((0, 2), 1)]"
    by code_simp
  from a b show ?thesis by simp
qed

section \<open>The invariant of the grid\<close>

text \<open>
  C6. The constructor with positive dimensions, given a distribution that draws 0 or 1,
  returns a grid of these dimensions in which every index of \<open>[0, width * height)\<close>
  holds 0 or 1; it fails only when the product of the dimensions overflows \<open>int\<close>. On a
  grid with this invariant \<open>activate\<close> and \<open>deactivate\<close> return for every coordinate inside
  the grid, and whenever they return the grid still satisfies the invariant and has the
  same width and height; a full pass of \<open>applyTo\<close> returns such a grid too.
\<close>

theorem grid_invariant_preserved:
  "(0 < w \<and> 0 < h \<and> (\<forall>e. fst (draw e) = 0 \<or> fst (draw e) = 1) \<longrightarrow>
      (case Grid_ctor draw e0 w h of
         Inl e \<Rightarrow> e = Overflow \<and> INT_MAX < w * h
       | Inr g \<Rightarrow> grid_inv g \<and> m_width g = w \<and> m_height g = h))
   \<and> (grid_inv g \<longrightarrow>
        (case activate g c of
           Inl e \<Rightarrow> \<not> in_bounds g c
         | Inr g' \<Rightarrow> grid_inv g' \<and> m_width g' = m_width g \<and> m_height g' = m_height g)
      \<and> (case deactivate g c of
           Inl e \<Rightarrow> \<not> in_bounds g c
         | Inr g' \<Rightarrow> grid_inv g' \<and> m_width g' = m_width g \<and> m_height g' = m_height g)
      \<and> (\<exists>g'. applyTo g = Inr g' \<and> grid_inv g' \<and> m_width g' = m_width g
              \<and> m_height g' = m_height g))"
proof (intro conjI impI)
  assume a: "0 < w \<and> 0 < h \<and> (\<forall>e. fst (draw e) = 0 \<or> fst (draw e) = 1)"
  then have pos: "0 < w * h" by simp
  let ?g = "\<lparr>m_contents = map (nth_draw draw e0) [0 ..< nat (w * h)], m_width = w,
             m_height = h, m_max = w * h,
             m_engine = engine_after draw e0 (nat (w * h))\<rparr>"
  show "case Grid_ctor draw e0 w h of
         Inl e \<Rightarrow> e = Overflow \<and> INT_MAX < w * h
       | Inr g \<Rightarrow> grid_inv g \<and> m_width g = w \<and> m_height g = h"
  proof (cases "w * h \<le> INT_MAX")
    case True
    with pos have "Grid_ctor draw e0 w h = Inr ?g" by (intro Grid_ctor_eq) simp_all
    moreover from a pos True have "grid_shape ?g" by (simp add: grid_shape_def)
    moreover from a have "binary ?g" by (simp add: binary_def list_all_iff nth_draw_def)
    ultimately show ?thesis by (simp add: grid_inv_def)
  next
    case False
    then show ?thesis by (simp add: Grid_ctor_def in_int_range_def)
  qed
next
  assume inv: "grid_inv g"
  then have sh: "grid_shape g" by (simp add: grid_inv_def)
  have idx: "to_1d g c = Inr (linear_index g c) \<and> 0 \<le> linear_index g c
      \<and> linear_index g c < int (length (m_contents g))" if "in_bounds g c"
    using to_1d_in_bounds [OF sh that] linear_index_in_range [OF sh that] by linarith
  show "case activate g c of
           Inl e \<Rightarrow> \<not> in_bounds g c
         | Inr g' \<Rightarrow> grid_inv g' \<and> m_width g' = m_width g \<and> m_height g' = m_height g"
  proof (cases "activate g c")
    case (Inl e)
    with idx show ?thesis
      by (auto simp add: activate_def write_contents_def split: if_splits)
  next
    case (Inr g')
    then obtain i where "write_contents g i 1 = Inr g'"
      by (auto simp add: activate_def split: sum.splits)
    from write_contents_inv [OF inv _ this] Inr show ?thesis by simp
  qed
  show "case deactivate g c of
           Inl e \<Rightarrow> \<not> in_bounds g c
         | Inr g' \<Rightarrow> grid_inv g' \<and> m_width g' = m_width g \<and> m_height g' = m_height g"
  proof (cases "deactivate g c")
    case (Inl e)
    with idx show ?thesis
      by (auto simp add: deactivate_def write_contents_def split: if_splits)
  next
    case (Inr g')
    then obtain i where "write_contents g i 0 = Inr g'"
      by (auto simp add: deactivate_def split: sum.splits)
    from write_contents_inv [OF inv _ this] Inr show ?thesis by simp
  qed
  from applyTo_inv [OF sh]
  show "\<exists>g'. applyTo g = Inr g' \<and> grid_inv g' \<and> m_width g' = m_width g
          \<and> m_height g' = m_height g" .
qed

theorem grid_invariant_preserved_witness:
  "0 < (3::int) \<and> 0 < (2::int)
   \<and> Grid_ctor parity_draw 0 3 2
       = Inr \<lparr>m_contents = [0, 1, 0, 1, 0, 1], m_width = 3, m_height = 2, m_max = 6,
              m_engine = 6\<rparr>
   \<and> grid_inv block \<and> in_bounds block (0, 0)
   \<and> activate block (0, 0) = Inr (block\<lparr>m_contents := [1, 1, 1, 0]\<rparr>)
   \<and> deactivate block (0, 1) = Inr (block\<lparr>m_contents := [0, 0, 1, 0]\<rparr>)
   \<and> applyTo block = Inr (block\<lparr>m_contents := [0, 0, 0, 0]\<rparr>)"
proof -
  have a: "0 < (3::int) \<and> 0 < (2::int)" by simp
  have b: "\<forall>e. fst (parity_draw e) = 0 \<or> fst (parity_draw e) = 1"
    by (auto simp add: parity_draw_def)
  have c: "grid_inv block \<and> in_bounds block (0, 0)"
    by (simp add: grid_inv_def grid_shape_def binary_def in_bounds_def block_def INT_MAX_def)
  have d: "Grid_ctor parity_draw 0 3 2
       = Inr \<lparr>m_contents = [0, 1, 0, 1, 0, 1], m_width = 3, m_height = 2, m_max = 6,
              m_engine = 6\<rparr>"
    by code_simp
  have e: "activate block (0, 0) = Inr (block\<lparr>m_contents := [1, 1, 1, 0]\<rparr>)"
    "deactivate block (0, 1) = Inr (block\<lparr>m_contents := [0, 0, 1, 0]\<rparr>)"
    "applyTo block = Inr (block\<lparr>m_contents := [0, 0, 0, 0]\<rparr>)"
    by code_simp+
  from grid_invariant_preserved [of 3 2 parity_draw 0 block "(0, 0)"] a b c d e
  show ?thesis by simp
qed

section \<open>Array accesses through coordinates\<close>

text \<open>
  C7, amended. For a coordinate inside the grid, \<open>to_1d\<close> returns the index
  \<open>second + first * height\<close>, which lies in \<open>[0, width * height)\<close>, and \<open>value_at\<close>,
  \<open>activate\<close> and \<open>deactivate\<close> access that cell and return. For any coordinate, \<open>to_1d\<close>
  returns \<open>second + first * height\<close> unless the product or the sum overflows \<open>int\<close>, and
  the three operations fail exactly when it overflows or that index is negative or at
  least \<open>width * height\<close>; otherwise they access the cell of that index. A coordinate
  outside the grid need not be out of range: on every grid of width at least 2 the
  coordinate \<open>(0, height)\<close> is outside the grid, has the index \<open>height\<close> of the cell
  \<open>(1, 0)\<close>, and is read and written as that cell.
\<close>

theorem coordinate_access_range:
  assumes "grid_shape g"
  shows "(in_bounds g c \<longrightarrow>
            to_1d g c = Inr (snd c + fst c * m_height g)
          \<and> 0 \<le> snd c + fst c * m_height g
          \<and> snd c + fst c * m_height g < m_width g * m_height g
          \<and> value_at g c = Inr (m_contents g ! nat (snd c + fst c * m_height g))
          \<and> activate g c
              = Inr (g\<lparr>m_contents := (m_contents g)[nat (snd c + fst c * m_height g) := 1]\<rparr>)
          \<and> deactivate g c
              = Inr (g\<lparr>m_contents := (m_contents g)[nat (snd c + fst c * m_height g) := 0]\<rparr>))
       \<and> to_1d g c
           = (if in_int_range (fst c * m_height g)
                 \<and> in_int_range (snd c + fst c * m_height g)
              then Inr (snd c + fst c * m_height g) else Inl Overflow)
       \<and> value_at g c
           = (if \<not> (in_int_range (fst c * m_height g)
                     \<and> in_int_range (snd c + fst c * m_height g))
              then Inl Overflow
              else if 0 \<le> snd c + fst c * m_height g
                      \<and> snd c + fst c * m_height g < m_width g * m_height g
              then Inr (m_contents g ! nat (snd c + fst c * m_height g))
              else Inl OutOfRange)
       \<and> activate g c
           = (if \<not> (in_int_range (fst c * m_height g)
                     \<and> in_int_range (snd c + fst c * m_height g))
              then Inl Overflow
              else if 0 \<le> snd c + fst c * m_height g
                      \<and> snd c + fst c * m_height g < m_width g * m_height g
              then Inr (g\<lparr>m_contents :=
                          (m_contents g)[nat (snd c + fst c * m_height g) := 1]\<rparr>)
              else Inl OutOfRange)
       \<and> deactivate g c
           = (if \<not> (in_int_range (fst c * m_height g)
                     \<and> in_int_range (snd c + fst c * m_height g))
              then Inl Overflow
              else if 0 \<le> snd c + fst c * m_height g
                      \<and> snd c + fst c * m_height g < m_width g * m_height g
              then Inr (g\<lparr>m_contents :=
                          (m_contents g)[nat (snd c + fst c * m_height g) := 0]\<rparr>)
              else Inl OutOfRange)
       \<and> (2 \<le> m_width g \<longrightarrow>
             \<not> in_bounds g (0, m_height g) \<and> in_bounds g (1, 0)
           \<and> value_at g (0, m_height g) = Inr (m_contents g ! nat (m_height g))
           \<and> value_at g (1, 0) = Inr (m_contents g ! nat (m_height g))
           \<and> activate g (0, m_height g)
               = Inr (g\<lparr>m_contents := (m_contents g)[nat (m_height g) := 1]\<rparr>)
           \<and> activate g (1, 0)
               = Inr (g\<lparr>m_contents := (m_contents g)[nat (m_height g) := 1]\<rparr>)
           \<and> deactivate g (0, m_height g)
               = Inr (g\<lparr>m_contents := (m_contents g)[nat (m_height g) := 0]\<rparr>)
           \<and> deactivate g (1, 0)
               = Inr (g\<lparr>m_contents := (m_contents g)[nat (m_height g) := 0]\<rparr>))"
proof -
  from assms have h: "0 < m_height g" and w: "0 < m_width g"
    and len: "int (length (m_contents g)) = m_width g * m_height g"
    and m: "m_width g * m_height g \<le> INT_MAX"
    by (simp_all add: grid_shape_def)
  have acc: "value_at g d
           = (if \<not> (in_int_range (fst d * m_height g)
                     \<and> in_int_range (snd d + fst d * m_height g))
              then Inl Overflow
              else if 0 \<le> snd d + fst d * m_height g
                      \<and> snd d + fst d * m_height g < m_width g * m_height g
              then Inr (m_contents g ! nat (snd d + fst d * m_height g))
              else Inl OutOfRange)
       \<and> activate g d
           = (if \<not> (in_int_range (fst d * m_height g)
                     \<and> in_int_range (snd d + fst d * m_height g))
              then Inl Overflow
              else if 0 \<le> snd d + fst d * m_height g
                      \<and> snd d + fst d * m_height g < m_width g * m_height g
              then Inr (g\<lparr>m_contents :=
                          (m_contents g)[nat (snd d + fst d * m_height g) := 1]\<rparr>)
              else Inl OutOfRange)
       \<and> deactivate g d
           = (if \<not> (in_int_range (fst d * m_height g)
                     \<and> in_int_range (snd d + fst d * m_height g))
              then Inl Overflow
              else if 0 \<le> snd d + fst d * m_height g
                      \<and> snd d + fst d * m_height g < m_width g * m_height g
              then Inr (g\<lparr>m_contents :=
                          (m_contents g)[nat (snd d + fst d * m_height g) := 0]\<rparr>)
              else Inl OutOfRange)" for d
    by (simp add: value_at_def activate_def deactivate_def to_1d_def read_contents_def
        write_contents_def len)
  have inb: "in_int_range (fst d * m_height g) \<and> in_int_range (snd d + fst d * m_height g)
      \<and> 0 \<le> snd d + fst d * m_height g
      \<and> snd d + fst d * m_height g < m_width g * m_height g" if "in_bounds g d" for d
    using linear_index_range [OF that h] m
    by (simp add: linear_index_def in_int_range_def INT_MIN_def)
  have 1: "in_bounds g c \<longrightarrow>
            to_1d g c = Inr (snd c + fst c * m_height g)
          \<and> 0 \<le> snd c + fst c * m_height g
          \<and> snd c + fst c * m_height g < m_width g * m_height g
          \<and> value_at g c = Inr (m_contents g ! nat (snd c + fst c * m_height g))
          \<and> activate g c
              = Inr (g\<lparr>m_contents := (m_contents g)[nat (snd c + fst c * m_height g) := 1]\<rparr>)
          \<and> deactivate g c
              = Inr (g\<lparr>m_contents := (m_contents g)[nat (snd c + fst c * m_height g) := 0]\<rparr>)"
  proof
    assume c: "in_bounds g c"
    from inb [OF c] acc [of c] show "to_1d g c = Inr (snd c + fst c * m_height g)
          \<and> 0 \<le> snd c + fst c * m_height g
          \<and> snd c + fst c * m_height g < m_width g * m_height g
          \<and> value_at g c = Inr (m_contents g ! nat (snd c + fst c * m_height g))
          \<and> activate g c
              = Inr (g\<lparr>m_contents := (m_contents g)[nat (snd c + fst c * m_height g) := 1]\<rparr>)
          \<and> deactivate g c
              = Inr (g\<lparr>m_contents := (m_contents g)[nat (snd c + fst c * m_height g) := 0]\<rparr>)"
      by (simp add: to_1d_def)
  qed
  have 2: "to_1d g c
           = (if in_int_range (fst c * m_height g)
                 \<and> in_int_range (snd c + fst c * m_height g)
              then Inr (snd c + fst c * m_height g) else Inl Overflow)"
    by (simp add: to_1d_def)
  have 3: "2 \<le> m_width g \<longrightarrow>
             \<not> in_bounds g (0, m_height g) \<and> in_bounds g (1, 0)
           \<and> value_at g (0, m_height g) = Inr (m_contents g ! nat (m_height g))
           \<and> value_at g (1, 0) = Inr (m_contents g ! nat (m_height g))
           \<and> activate g (0, m_height g)
               = Inr (g\<lparr>m_contents := (m_contents g)[nat (m_height g) := 1]\<rparr>)
           \<and> activate g (1, 0)
               = Inr (g\<lparr>m_contents := (m_contents g)[nat (m_height g) := 1]\<rparr>)
           \<and> deactivate g (0, m_height g)
               = Inr (g\<lparr>m_contents := (m_contents g)[nat (m_height g) := 0]\<rparr>)
           \<and> deactivate g (1, 0)
               = Inr (g\<lparr>m_contents := (m_contents g)[nat (m_height g) := 0]\<rparr>)"
  proof
    assume w2: "2 \<le> m_width g"
    then have b: "in_bounds g (1, 0)" using h by (simp add: in_bounds_def)
    have nb: "\<not> in_bounds g (0, m_height g)" by (simp add: in_bounds_def)
    from inb [OF b] have r: "in_int_range (m_height g)" "m_height g < m_width g * m_height g"
      by simp_all
    from r h have z: "in_int_range 0" by (simp add: in_int_range_def INT_MIN_def)
    from acc [of "(0, m_height g)"] acc [of "(1, 0)"] r h z b nb
    show "\<not> in_bounds g (0, m_height g) \<and> in_bounds g (1, 0)
           \<and> value_at g (0, m_height g) = Inr (m_contents g ! nat (m_height g))
           \<and> value_at g (1, 0) = Inr (m_contents g ! nat (m_height g))
           \<and> activate g (0, m_height g)
               = Inr (g\<lparr>m_contents := (m_contents g)[nat (m_height g) := 1]\<rparr>)
           \<and> activate g (1, 0)
               = Inr (g\<lparr>m_contents := (m_contents g)[nat (m_height g) := 1]\<rparr>)
           \<and> deactivate g (0, m_height g)
               = Inr (g\<lparr>m_contents := (m_contents g)[nat (m_height g) := 0]\<rparr>)
           \<and> deactivate g (1, 0)
               = Inr (g\<lparr>m_contents := (m_contents g)[nat (m_height g) := 0]\<rparr>)"
      by simp
  qed
  from 1 2 3 acc [of c] show ?thesis by blast
qed

theorem coordinate_access_range_witness:
  "grid_shape block \<and> in_bounds block (1, 0) \<and> 2 \<le> m_width block
   \<and> to_1d block (1, 0) = Inr 2
   \<and> value_at block (1, 0) = Inr 1
   \<and> activate block (0, 0) = Inr (block\<lparr>m_contents := [1, 1, 1, 0]\<rparr>)
   \<and> deactivate block (1, 0) = Inr (block\<lparr>m_contents := [0, 1, 0, 0]\<rparr>)
   \<and> deactivate block (0, m_height block) = Inr (block\<lparr>m_contents := [0, 1, 0, 0]\<rparr>)
   \<and> value_at block (2, 0) = Inl OutOfRange
   \<and> value_at block (0, -1) = Inl OutOfRange
   \<and> value_at block (2147483647, 0) = Inl Overflow"
proof -
  have a: "grid_shape block" by (simp add: grid_shape_def block_def INT_MAX_def)
  have b: "in_bounds block (1, 0)" "2 \<le> m_width block"
    by (simp_all add: in_bounds_def block_def)
  have c: "to_1d block (1, 0) = Inr 2" by code_simp
  have d: "value_at block (1, 0) = Inr 1" "value_at block (2, 0) = Inl OutOfRange"
    "activate block (0, 0) = Inr (block\<lparr>m_contents := [1, 1, 1, 0]\<rparr>)"
    "deactivate block (1, 0) = Inr (block\<lparr>m_contents := [0, 1, 0, 0]\<rparr>)"
    "deactivate block (0, m_height block) = Inr (block\<lparr>m_contents := [0, 1, 0, 0]\<rparr>)"
    "value_at block (0, -1) = Inl OutOfRange"
    "value_at block (2147483647, 0) = Inl Overflow"
    by code_simp+
  from coordinate_access_range [OF a, of "(1, 0)"] a b c d show ?thesis by simp
qed

theorem out_of_bounds_coordinate_counterexample:
  "grid_shape block \<and> \<not> in_bounds block (0, 2)
   \<and> value_at block (0, 2) = Inr 1 \<and> value_at block (1, 0) = Inr 1
   \<and> activate block (0, 3) = Inr (block\<lparr>m_contents := [0, 1, 1, 1]\<rparr>)
   \<and> deactivate block (0, 2) = Inr (block\<lparr>m_contents := [0, 1, 0, 0]\<rparr>)"
proof -
  have a: "grid_shape block \<and> \<not> in_bounds block (0, 2)"
    by (simp add: grid_shape_def in_bounds_def block_def INT_MAX_def)
  have b: "value_at block (0, 2) = Inr 1" "value_at block (1, 0) = Inr 1"
    "activate block (0, 3) = Inr (block\<lparr>m_contents := [0, 1, 1, 1]\<rparr>)"
    "deactivate block (0, 2) = Inr (block\<lparr>m_contents := [0, 1, 0, 0]\<rparr>)"
    by code_simp+
  from a b show ?thesis by simp
qed

section \<open>The dead grid\<close>

text \<open>
  C8. On a grid with positive dimensions whose cells are all dead, \<open>applyTo\<close> returns the
  grid unchanged: every cell is still dead.
\<close>

theorem all_dead_fixed_point:
  assumes "grid_shape g" "list_all (\<lambda>v. v = 0) (m_contents g)"
  shows "applyTo g = Inr g"
proof -
  from assms(1) have "int (length (m_contents g)) = m_max g" by (simp add: grid_shape_def)
  then have len: "length (m_contents g) = nat (m_max g)" by linarith
  have "next_val g i = 0" for i
    by (simp add: next_val_def count_alive_neighbors_def count_alive_loop_eq hood_at_def
        neighbor_cells_dead [OF assms] cell_lives_def)
  then have "map (next_val g) [0 ..< nat (m_max g)] = m_contents g"
    using assms(2) len by (simp add: list_eq_iff_nth_eq list_all_length)
  then show ?thesis by (simp add: applyTo_eq [OF assms(1)])
qed

theorem all_dead_fixed_point_witness:
  "grid_shape dead_grid \<and> list_all (\<lambda>v. v = 0) (m_contents dead_grid)
   \<and> applyTo dead_grid = Inr dead_grid"
proof -
  have a: "grid_shape dead_grid" by (simp add: grid_shape_def dead_grid_def INT_MAX_def)
  have b: "list_all (\<lambda>v. v = 0) (m_contents dead_grid)" by (simp add: dead_grid_def)
  from all_dead_fixed_point [OF a b] a b show ?thesis by simp
qed

section \<open>The blinker\<close>

text \<open>
  C9. On the 5 by 5 grid whose living cells are exactly \<open>(2,1)\<close>, \<open>(2,2)\<close>, \<open>(2,3)\<close>, one
  pass of \<open>applyTo\<close> gives the grid whose living cells are exactly \<open>(1,2)\<close>, \<open>(2,2)\<close>,
  \<open>(3,2)\<close>, and a second pass gives the first grid again.
\<close>

theorem blinker_period_two:
  "m_width blinker_a = 5 \<and> m_height blinker_a = 5 \<and> length (m_contents blinker_a) = 25
   \<and> alive_coords blinker_a = [(2, 1), (2, 2), (2, 3)]
   \<and> applyTo blinker_a = Inr blinker_b
   \<and> alive_coords blinker_b = [(1, 2), (2, 2), (3, 2)]
   \<and> applyTo blinker_b = Inr blinker_a
   \<and> play_rounds 2 blinker_a = Inr blinker_a"
proof -
  have 1: "m_width blinker_a = 5 \<and> m_height blinker_a = 5 \<and> length (m_contents blinker_a) = 25"
    by (simp add: blinker_a_def)
  have 2: "alive_coords blinker_a = [(2, 1), (2, 2), (2, 3)]" by code_simp
  have 3: "applyTo blinker_a = Inr blinker_b" by code_simp
  have 4: "alive_coords blinker_b = [(1, 2), (2, 2), (3, 2)]" by code_simp
  have 5: "applyTo blinker_b = Inr blinker_a" by code_simp
  have 6: "play_rounds 2 blinker_a = Inr blinker_a"
    by (simp add: numeral_2_eq_2 play_round_def play_def 3 5)
  from 1 2 3 4 5 6 show ?thesis by simp
qed

section \<open>The contents of a constructed grid\<close>

text \<open>
  The cells of a constructed grid are the first \<open>width * height\<close> draws of the engine
  that the constructor starts from, in the order of the indices, and the grid keeps the
  engine as these draws leave it.
\<close>

lemma Grid_ctor_contents:
  assumes "Grid_ctor draw default_engine w h = Inr g"
  shows "m_contents g = map (nth_draw draw default_engine) [0 ..< nat (w * h)]
     \<and> m_engine g = engine_after draw default_engine (nat (w * h))"
proof -
  from Grid_ctor_Inr [OF assms] have "0 \<le> w * h" "w * h \<le> INT_MAX" by simp_all
  from Grid_ctor_eq [OF this, of draw default_engine] assms show ?thesis by auto
qed

end
